theory Spec2Isabelle
  imports Complex_Main "HOL-Library.Word" "HOL-Library.Multiset" "HOL-Library.Log_Nat"
begin

text \<open>
  The analysis engine of ORAN-DRISHTI: the drift of two rasters, the two anomaly scorers
  (isolation forest and Median/MAD), the FFT-based harmonic analysis of a time series and
  the solar validation, embedded from the TypeScript sources, with the properties the
  specification states about them.
\<close>

section \<open>JavaScript numbers and typed arrays\<close>

text \<open>
  A JavaScript Number is an IEEE-754 binary64 value. The engine produces and compares the
  special values (\<open>Infinity\<close>, \<open>-Infinity\<close>, \<open>NaN\<close>), so the model keeps them. A finite value
  is taken as the real number it denotes: rounding (to binary64, and to binary32 when a
  value is stored into a \<open>Float32Array\<close>) and the sign of zero are not modelled.
\<close>

datatype number = NaN | NInf | Fin real | PInf

text \<open>The relational operators: every comparison with \<open>NaN\<close> is false.\<close>

fun lt :: "number \<Rightarrow> number \<Rightarrow> bool" where
  "lt NaN b = False"
| "lt NInf NaN = False"
| "lt NInf NInf = False"
| "lt NInf (Fin y) = True"
| "lt NInf PInf = True"
| "lt (Fin x) NaN = False"
| "lt (Fin x) NInf = False"
| "lt (Fin x) (Fin y) = (x < y)"
| "lt (Fin x) PInf = True"
| "lt PInf b = False"

definition gt :: "number \<Rightarrow> number \<Rightarrow> bool" where
  "gt a b = lt b a"

text \<open>\<open>a >= b\<close>: false when an operand is \<open>NaN\<close>, otherwise the negation of \<open>a < b\<close>.\<close>

definition ge :: "number \<Rightarrow> number \<Rightarrow> bool" where
  "ge a b = (a \<noteq> NaN \<and> b \<noteq> NaN \<and> \<not> lt a b)"

text \<open>Strict equality \<open>===\<close> on numbers: \<open>NaN\<close> is not equal to itself.\<close>

definition strict_eq :: "number \<Rightarrow> number \<Rightarrow> bool" where
  "strict_eq a b = (a \<noteq> NaN \<and> a = b)"

fun neg :: "number \<Rightarrow> number" where
  "neg NaN = NaN"
| "neg NInf = PInf"
| "neg (Fin x) = Fin (- x)"
| "neg PInf = NInf"

fun add :: "number \<Rightarrow> number \<Rightarrow> number" where
  "add NaN b = NaN"
| "add NInf NaN = NaN"
| "add NInf NInf = NInf"
| "add NInf (Fin y) = NInf"
| "add NInf PInf = NaN"
| "add (Fin x) NaN = NaN"
| "add (Fin x) NInf = NInf"
| "add (Fin x) (Fin y) = Fin (x + y)"
| "add (Fin x) PInf = PInf"
| "add PInf NaN = NaN"
| "add PInf NInf = NaN"
| "add PInf (Fin y) = PInf"
| "add PInf PInf = PInf"

definition sub :: "number \<Rightarrow> number \<Rightarrow> number" where
  "sub a b = add a (neg b)"

text \<open>Multiplication: an infinity times zero is \<open>NaN\<close>; otherwise the signs multiply.\<close>

definition signed_inf :: "bool \<Rightarrow> number" where
  "signed_inf positive = (if positive then PInf else NInf)"

fun mul :: "number \<Rightarrow> number \<Rightarrow> number" where
  "mul NaN b = NaN"
| "mul NInf NaN = NaN"
| "mul NInf NInf = PInf"
| "mul NInf (Fin y) = (if y = 0 then NaN else signed_inf (y < 0))"
| "mul NInf PInf = NInf"
| "mul (Fin x) NaN = NaN"
| "mul (Fin x) NInf = (if x = 0 then NaN else signed_inf (x < 0))"
| "mul (Fin x) (Fin y) = Fin (x * y)"
| "mul (Fin x) PInf = (if x = 0 then NaN else signed_inf (0 < x))"
| "mul PInf NaN = NaN"
| "mul PInf NInf = NInf"
| "mul PInf (Fin y) = (if y = 0 then NaN else signed_inf (0 < y))"
| "mul PInf PInf = PInf"

text \<open>
  Division: \<open>0/0\<close> and \<open>Infinity/Infinity\<close> are \<open>NaN\<close>, a nonzero value over zero is an
  infinity (the zero divisor is taken as \<open>+0\<close>).
\<close>

fun divide_num :: "number \<Rightarrow> number \<Rightarrow> number" where
  "divide_num NaN b = NaN"
| "divide_num NInf NaN = NaN"
| "divide_num NInf NInf = NaN"
| "divide_num NInf (Fin y) = signed_inf (y < 0)"
| "divide_num NInf PInf = NaN"
| "divide_num (Fin x) NaN = NaN"
| "divide_num (Fin x) NInf = Fin 0"
| "divide_num (Fin x) (Fin y) =
     (if y = 0 then (if x = 0 then NaN else signed_inf (0 < x)) else Fin (x / y))"
| "divide_num (Fin x) PInf = Fin 0"
| "divide_num PInf NaN = NaN"
| "divide_num PInf NInf = NaN"
| "divide_num PInf (Fin y) = signed_inf (0 \<le> y)"
| "divide_num PInf PInf = NaN"

text \<open>\<open>Math.abs\<close>.\<close>

fun abs_num :: "number \<Rightarrow> number" where
  "abs_num NaN = NaN"
| "abs_num NInf = PInf"
| "abs_num (Fin x) = Fin \<bar>x\<bar>"
| "abs_num PInf = PInf"

text \<open>\<open>Math.pow(2, x)\<close>.\<close>

fun pow2 :: "number \<Rightarrow> number" where
  "pow2 NaN = NaN"
| "pow2 NInf = Fin 0"
| "pow2 (Fin x) = Fin (2 powr x)"
| "pow2 PInf = PInf"

text \<open>
  Reading a typed array at an index: the element, or \<open>undefined\<close> (\<open>None\<close>) outside the
  array. \<open>Number(v)\<close> and every arithmetic operator turn \<open>undefined\<close> into \<open>NaN\<close>, as does
  a store into a \<open>Float32Array\<close>.
\<close>

definition elem :: "'a list \<Rightarrow> int \<Rightarrow> 'a option" where
  "elem xs i = (if 0 \<le> i \<and> i < int (length xs) then Some (xs ! nat i) else None)"

fun Number :: "number option \<Rightarrow> number" where
  "Number None = NaN"
| "Number (Some x) = x"

section \<open>Drift computation (geospatialEngine: calculateDrift)\<close>

text \<open>
  \<open>RasterData\<close>: the dimensions are image dimensions (natural numbers); \<open>data\<close> is a
  \<open>Float32Array\<close>, \<open>Uint16Array\<close> or \<open>Uint8Array\<close>, read as numbers.
\<close>

record RasterData =
  width :: nat
  height :: nat
  data :: "number list"
  min_val :: number
  max_val :: number

datatype error = Error string

text \<open>
  The loop writes \<open>drift[i] = Number(present.data[i]) - Number(past.data[i])\<close> for every
  \<open>i\<close> below \<open>past.data.length\<close>.
\<close>

definition calculateDrift :: "RasterData \<Rightarrow> RasterData \<Rightarrow> error + number list" where
  "calculateDrift past present =
     (if width past \<noteq> width present \<or> height past \<noteq> height present
      then Inl (Error ''Image dimensions do not match'')
      else Inr (map (\<lambda>i. sub (Number (elem (data present) (int i)))
                              (Number (elem (data past) (int i))))
                    [0..<length (data past)]))"

text \<open>The grid invariant of the data model: the buffer holds width times height elements.\<close>

definition grid :: "RasterData \<Rightarrow> bool" where
  "grid g = (length (data g) = width g * height g)"

fun finite_num :: "number \<Rightarrow> bool" where
  "finite_num (Fin x) = True"
| "finite_num NaN = False"
| "finite_num NInf = False"
| "finite_num PInf = False"

section \<open>Solar validation (geospatialEngine: validateShadowDepth)\<close>

definition validateShadowDepth :: "number \<Rightarrow> number \<Rightarrow> bool" where
  "validateShadowDepth sunAltitude anomalyScore =
     (gt sunAltitude (Fin 30) \<and> gt anomalyScore (Fin 0.5))"

section \<open>Median/MAD scorer (geospatialEngine, robust variant: detectAnomalies)\<close>

text \<open>
  The result object \<open>{ anomalies: Uint8Array, count: number, stats: any }\<close> of both
  scorers; the statistics of this one are \<open>{ median, mad, limit }\<close>. A statistic read from
  an empty array is \<open>undefined\<close> (\<open>None\<close>).
\<close>

record 'stats result =
  anomalies :: "8 word list"
  count :: nat
  stats :: 'stats

record mad_stats =
  median :: "number option"
  mad :: "number option"
  limit :: number

text \<open>
  \<open>Math.random()\<close>: the outcomes of the calls are a parameter \<open>rnd\<close>, the \<open>k\<close>-th call of an
  invocation returning \<open>rnd k\<close>. The subsample of the large-image branch stores
  \<open>drift[Math.floor(Math.random() * drift.length)]\<close> into a \<open>Float32Array\<close>, one call per
  element.
\<close>

definition subsample :: "(nat \<Rightarrow> real) \<Rightarrow> number list \<Rightarrow> nat \<Rightarrow> nat \<Rightarrow> number list" where
  "subsample rnd drift sampleSize k =
     map (\<lambda>i. Number (elem drift \<lfloor>rnd (k + i) * real (length drift)\<rfloor>)) [0..<sampleSize]"

text \<open>
  \<open>%TypedArray%.prototype.sort()\<close> without a comparator sorts numerically ascending, with
  every \<open>NaN\<close> after every number. \<open>sort_le\<close> is that order.
\<close>

fun sort_le :: "number \<Rightarrow> number \<Rightarrow> bool" where
  "sort_le a NaN = True"
| "sort_le NaN NInf = False"
| "sort_le NaN (Fin y) = False"
| "sort_le NaN PInf = False"
| "sort_le NInf NInf = True"
| "sort_le NInf (Fin y) = True"
| "sort_le NInf PInf = True"
| "sort_le (Fin x) NInf = False"
| "sort_le (Fin x) (Fin y) = (x \<le> y)"
| "sort_le (Fin x) PInf = True"
| "sort_le PInf NInf = False"
| "sort_le PInf (Fin y) = False"
| "sort_le PInf PInf = True"

fun insert_num :: "number \<Rightarrow> number list \<Rightarrow> number list" where
  "insert_num x [] = [x]"
| "insert_num x (y # ys) = (if sort_le x y then x # y # ys else y # insert_num x ys)"

fun sort_num :: "number list \<Rightarrow> number list" where
  "sort_num [] = []"
| "sort_num (x # xs) = insert_num x (sort_num xs)"

text \<open>
  The flagging loop: \<open>if (drift[i] < limit) { anomalies[i] = 1; count++; }\<close> over a
  zero-filled \<open>Uint8Array\<close>; it returns the flags and the count.
\<close>

fun flag_below :: "number \<Rightarrow> number list \<Rightarrow> 8 word list \<times> nat" where
  "flag_below bound [] = ([], 0)"
| "flag_below bound (x # xs) =
     (let (flags, cnt) = flag_below bound xs
      in if lt x bound then (1 # flags, Suc cnt) else (0 # flags, cnt))"

text \<open>\<open>mad === 0\<close>, where \<open>mad\<close> may be \<open>undefined\<close>.\<close>

fun is_zero :: "number option \<Rightarrow> bool" where
  "is_zero None = False"
| "is_zero (Some x) = strict_eq x (Fin 0)"

definition robust_sample :: "(nat \<Rightarrow> real) \<Rightarrow> number list \<Rightarrow> number list" where
  "robust_sample rnd drift =
     (if 1000000 < length drift then subsample rnd drift 100000 0 else drift)"

definition detectAnomalies_mad :: "(nat \<Rightarrow> real) \<Rightarrow> number list \<Rightarrow> mad_stats result" where
  "detectAnomalies_mad rnd drift =
     (let sample = robust_sample rnd drift;
          sorted = sort_num sample;
          mid = length sorted div 2;
          med = elem sorted (int mid);
          deviations = sort_num (map (\<lambda>x. abs_num (sub x (Number med))) sorted);
          dev = elem deviations (int mid);
          robustMad = (if is_zero dev then Fin 0.01 else Number dev);
          threshold = mul (Fin 3) robustMad;
          bound = sub (Number med) threshold;
          (flags, cnt) = flag_below bound drift
      in \<lparr>anomalies = flags, count = cnt,
          stats = \<lparr>median = med, mad = dev, limit = bound\<rparr>\<rparr>)"

section \<open>Isolation-forest scorer (geospatialEngine: detectAnomalies)\<close>

text \<open>
  A tree node is \<open>{ type: 'leaf', size }\<close> or \<open>{ type: 'node', splitValue, left, right }\<close>.
\<close>

datatype itree = Leaf nat | Node number itree itree

text \<open>
  \<open>heightLimit = Math.ceil(Math.log2(subSampleSize))\<close>, for the natural number
  \<open>subSampleSize = Math.min(n, 256)\<close>: \<open>-Infinity\<close> for 0 and the integer \<open>\<lceil>log2 s\<rceil>\<close> (the
  library's \<open>ceillog2\<close>) otherwise. \<open>reached depth h\<close> is the test \<open>depth >= heightLimit\<close>.
\<close>

datatype height = MinusInfinity | Height int

definition heightLimit :: "nat \<Rightarrow> height" where
  "heightLimit subSampleSize =
     (if subSampleSize = 0 then MinusInfinity else Height (int (ceillog2 subSampleSize)))"

fun reached :: "nat \<Rightarrow> height \<Rightarrow> bool" where
  "reached depth MinusInfinity = True"
| "reached depth (Height h) = (h \<le> int depth)"

text \<open>
  The minimum and maximum loops of \<open>buildTree\<close>, started at \<open>Infinity\<close> and \<open>-Infinity\<close>:
  \<open>if (data[i] < min) min = data[i]; if (data[i] > max) max = data[i];\<close>
\<close>

definition min_of :: "number list \<Rightarrow> number" where
  "min_of dat = fold (\<lambda>x m. if lt x m then x else m) dat PInf"

definition max_of :: "number list \<Rightarrow> number" where
  "max_of dat = fold (\<lambda>x m. if gt x m then x else m) dat NInf"

text \<open>
  \<open>buildTree(data, depth)\<close>. The extra argument \<open>k\<close> counts the calls of \<open>Math.random()\<close>
  made so far, and the new count is returned with the tree: the split value is drawn
  first, then the left subtree is built, then the right one.
\<close>

function buildTree ::
  "height \<Rightarrow> (nat \<Rightarrow> real) \<Rightarrow> number list \<Rightarrow> nat \<Rightarrow> nat \<Rightarrow> itree \<times> nat" where
  "buildTree h rnd dat depth k =
     (if reached depth h \<or> length dat \<le> 1 then (Leaf (length dat), k)
      else if strict_eq (min_of dat) (max_of dat) then (Leaf (length dat), k)
      else
        (let splitValue = add (min_of dat) (mul (Fin (rnd k)) (sub (max_of dat) (min_of dat)));
             leftData = filter (\<lambda>x. lt x splitValue) dat;
             rightData = filter (\<lambda>x. \<not> lt x splitValue) dat;
             (l, k1) = buildTree h rnd leftData (depth + 1) (k + 1);
             (r, k2) = buildTree h rnd rightData (depth + 1) k1
         in (Node splitValue l r, k2)))"
  by pat_completeness auto
termination
  by (relation "measure (\<lambda>(h, rnd, dat, depth, k).
                  case h of MinusInfinity \<Rightarrow> 0 | Height i \<Rightarrow> nat (i - int depth))")
     (auto split: height.splits)

declare buildTree.simps [simp del]

text \<open>
  The size correction \<open>c(size)\<close> and the path length. Both are finite numbers (the
  logarithm is taken of \<open>size - 1 \<ge> 1\<close>, the divisor \<open>size\<close> is at least 2), kept as reals.
\<close>

definition c :: "nat \<Rightarrow> real" where
  "c sz = (if sz \<le> 1 then 0
           else 2 * (ln (real (sz - 1)) + 0.5772156649) - (2 * real (sz - 1) / real sz))"

fun pathLength :: "number \<Rightarrow> itree \<Rightarrow> nat \<Rightarrow> real" where
  "pathLength val (Leaf sz) depth = real depth + c sz"
| "pathLength val (Node splitValue l r) depth =
     (if lt val splitValue then pathLength val l (depth + 1)
      else pathLength val r (depth + 1))"

text \<open>
  The forest loop: each of the \<open>numTrees\<close> rounds draws a subsample (one random call per
  element) and builds a tree on it at depth 0.
\<close>

definition numTrees :: nat where
  "numTrees = 10"

fun buildForest ::
  "nat \<Rightarrow> height \<Rightarrow> (nat \<Rightarrow> real) \<Rightarrow> number list \<Rightarrow> nat \<Rightarrow> nat \<Rightarrow> itree list \<times> nat" where
  "buildForest 0 h rnd drift subSampleSize k = ([], k)"
| "buildForest (Suc t) h rnd drift subSampleSize k =
     (let sample = subsample rnd drift subSampleSize k;
          (tree, k1) = buildTree h rnd sample 0 (k + subSampleSize);
          (forest, k2) = buildForest t h rnd drift subSampleSize k1
      in (tree # forest, k2))"

text \<open>
  The score of one drift value: the path lengths through all trees are summed and divided
  by \<open>numTrees\<close>, and the score is \<open>Math.pow(2, -avgPathLen / c(subSampleSize))\<close>. The
  division is the number division: \<open>c(subSampleSize)\<close> may be zero.
\<close>

definition score :: "itree list \<Rightarrow> nat \<Rightarrow> number \<Rightarrow> number" where
  "score forest subSampleSize val =
     (let avgPathLen = sum_list (map (\<lambda>tree. pathLength val tree 0) forest) / real numTrees
      in pow2 (divide_num (Fin (- avgPathLen)) (Fin (c subSampleSize))))"

definition isolationScores :: "(nat \<Rightarrow> real) \<Rightarrow> number list \<Rightarrow> number list" where
  "isolationScores rnd drift =
     (let n = length drift;
          subSampleSize = min n 256;
          (forest, k) = buildForest numTrees (heightLimit subSampleSize) rnd drift subSampleSize 0
      in map (score forest subSampleSize) drift)"

text \<open>
  The thresholding loop:
  \<open>if (scores[i] > anomalyThreshold && drift[i] < -0.05) { anomalies[i] = 1; count++; }\<close>
\<close>

fun flag_anomalous :: "number \<Rightarrow> (number \<times> number) list \<Rightarrow> 8 word list \<times> nat" where
  "flag_anomalous anomalyThreshold [] = ([], 0)"
| "flag_anomalous anomalyThreshold ((s, d) # rest) =
     (let (flags, cnt) = flag_anomalous anomalyThreshold rest
      in if gt s anomalyThreshold \<and> lt d (Fin (- 0.05)) then (1 # flags, Suc cnt)
         else (0 # flags, cnt))"

record forest_stats =
  maxScore :: number
  minScore :: number
  threshold :: number

definition detectAnomalies :: "(nat \<Rightarrow> real) \<Rightarrow> number list \<Rightarrow> forest_stats result" where
  "detectAnomalies rnd drift =
     (let scores = isolationScores rnd drift;
          lowest = fold (\<lambda>s m. if lt s m then s else m) scores PInf;
          highest = fold (\<lambda>s m. if gt s m then s else m) scores NInf;
          anomalyThreshold = Fin 0.65;
          (flags, cnt) = flag_anomalous anomalyThreshold (zip scores drift)
      in \<lparr>anomalies = flags, count = cnt,
          stats = \<lparr>maxScore = highest, minScore = lowest, threshold = anomalyThreshold\<rparr>\<rparr>)"

section \<open>Harmonic analysis (modelEngine: performHarmonicAnalysis)\<close>

text \<open>
  A \<open>TimeSeriesPoint\<close>. The numeric fields of a series are finite numbers, taken as reals.
\<close>

record TimeSeriesPoint =
  date :: string
  ndvi :: real
  viirs :: real
  seasonal :: real
  trend :: real

text \<open>
  \<open>nextPow2 = Math.max(2, Math.pow(2, Math.ceil(Math.log2(n))))\<close>; for \<open>n = 0\<close> the power
  is \<open>Math.pow(2, -Infinity) = 0\<close>.
\<close>

definition nextPow2 :: "nat \<Rightarrow> nat" where
  "nextPow2 n = max 2 (if n = 0 then 0 else 2 ^ ceillog2 n)"

text \<open>
  Modelled from the spec: the forward discrete Fourier transform of the \<open>fft.js\<close> object
  \<open>f\<close>, a library that is not among the repository's sources. Its size is the length of
  the array. A complex array, which the library stores as interleaved real and imaginary
  parts, is a list of complex numbers.
\<close>

definition dft_sum :: "real \<Rightarrow> complex list \<Rightarrow> nat \<Rightarrow> complex" where
  "dft_sum dir xs k =
     (\<Sum>j<length xs. xs ! j * cis (dir * (2 * pi * real j * real k / real (length xs))))"

definition transform :: "complex list \<Rightarrow> complex list" where
  "transform xs = map (dft_sum (- 1) xs) [0..<length xs]"

text \<open>
  The inverse transform of the same library. \<open>f.inverseTransform\<close> divides every output by
  the size (\<open>out[i] /= this.size\<close>), so it undoes \<open>transform\<close>. The comment in
  \<open>performHarmonicAnalysis\<close> and the specification describe it as unnormalised; that is
  not what the library does, and the function divides by the size a second time.
\<close>

definition inverseTransform :: "complex list \<Rightarrow> complex list" where
  "inverseTransform xs =
     map (\<lambda>k. dft_sum 1 xs k / of_nat (length xs)) [0..<length xs]"

text \<open>
  The filter loop \<open>for (let i = cutoff; i < nextPow2 - cutoff; i++)\<close> zeroes the bins from
  \<open>cutoff\<close> up to \<open>nextPow2 - cutoff\<close> (a bound that is negative for small sizes).
\<close>

definition cutoff :: nat where
  "cutoff = 10"

definition lowpass :: "complex list \<Rightarrow> complex list" where
  "lowpass output =
     map (\<lambda>i. if cutoff \<le> i \<and> int i < int (length output) - int cutoff then 0 else output ! i)
         [0..<length output]"

text \<open>The input array: the observed value with imaginary part 0, then zero padding.\<close>

definition fill_input :: "TimeSeriesPoint list \<Rightarrow> nat \<Rightarrow> complex list" where
  "fill_input history len =
     map (\<lambda>i. if i < length history then Complex (ndvi (history ! i)) 0 else Complex 0 0)
         [0..<len]"

text \<open>
  \<open>history.map((point, i) => ({ ...point, seasonal: input[2 * i] / nextPow2 }))\<close> after the
  forward transform, the filter and the inverse transform.
\<close>

definition performHarmonicAnalysis :: "TimeSeriesPoint list \<Rightarrow> TimeSeriesPoint list" where
  "performHarmonicAnalysis history =
     (let n = length history;
          len = nextPow2 n;
          input = fill_input history len;
          output = lowpass (transform input);
          smoothedInput = inverseTransform output
      in map (\<lambda>i. (history ! i)\<lparr>seasonal := Re (smoothedInput ! i) / real len\<rparr>) [0..<n])"

section \<open>Worked inputs\<close>

text \<open>
  The 2 by 2 scenario: past \<open>[0.5, 0.5, 0.5, 0.5]\<close>, present \<open>[0.1, 0.5, 0.5, 0.5]\<close>.
\<close>

abbreviation scenario_past :: RasterData where
  "scenario_past \<equiv> \<lparr>width = 2, height = 2, data = [Fin 0.5, Fin 0.5, Fin 0.5, Fin 0.5],
     min_val = Fin 0.5, max_val = Fin 0.5\<rparr>"

abbreviation scenario_present :: RasterData where
  "scenario_present \<equiv> \<lparr>width = 2, height = 2, data = [Fin 0.1, Fin 0.5, Fin 0.5, Fin 0.5],
     min_val = Fin 0.1, max_val = Fin 0.5\<rparr>"

abbreviation scenario_drift :: "number list" where
  "scenario_drift \<equiv> [Fin (- 0.4), Fin 0, Fin 0, Fin 0]"

text \<open>
  Random outcomes for the five-pixel run: the calls cycle through the indices 0 to 4 of the
  subsample (\<open>j / 5\<close> selects index \<open>j\<close> of five) and then the split fraction \<open>1/2\<close>.
\<close>

definition cycle_rnd :: "nat \<Rightarrow> real" where
  "cycle_rnd k = (if k mod 6 = 5 then 1 / 2 else real (k mod 6) / 5)"

abbreviation dip_drift :: "number list" where
  "dip_drift \<equiv> [Fin (- 1), Fin 0, Fin 0, Fin 0, Fin 0]"

abbreviation dip_tree :: itree where
  "dip_tree \<equiv> Node (Fin (- (1 / 2))) (Leaf 1) (Leaf 4)"

text \<open>Two series points: one with observed value 1, one with observed value 0.6.\<close>

abbreviation unit_point :: TimeSeriesPoint where
  "unit_point \<equiv> \<lparr>date = ''2023-01-01'', ndvi = 1, viirs = 0, seasonal = 0, trend = 0\<rparr>"

abbreviation sample_point :: TimeSeriesPoint where
  "sample_point \<equiv>
     \<lparr>date = ''2023-01-02'', ndvi = 0.6, viirs = 0.2, seasonal = 0.5, trend = 0.1\<rparr>"

section \<open>Properties\<close>

subsection \<open>Solar validation and drift\<close>

lemma elem_in_range: "i < length xs \<Longrightarrow> elem xs (int i) = Some (xs ! i)"
  by (simp add: elem_def)

lemma sub_Fin: "sub (Fin x) (Fin y) = Fin (x - y)"
  by (simp add: sub_def)

text \<open>
  C5. For all real altitudes and scores, \<open>validateShadowDepth\<close> is true exactly when the
  altitude exceeds 30 and the score exceeds 0.5; it is true at (35, 0.6) and false at
  (10, 0.9) and at (40, 0.3).
\<close>

theorem validateShadowDepth_iff:
  "validateShadowDepth (Fin a) (Fin s) = (30 < a \<and> 0.5 < s)
   \<and> validateShadowDepth (Fin 35) (Fin 0.6) = True
   \<and> validateShadowDepth (Fin 10) (Fin 0.9) = False
   \<and> validateShadowDepth (Fin 40) (Fin 0.3) = False"
  by (simp add: validateShadowDepth_def gt_def)

text \<open>
  C1. \<open>calculateDrift\<close> fails (with its only error) exactly when the widths or the heights
  differ. Otherwise it returns an array as long as the past buffer whose element at every
  index is the number subtraction \<open>Number(present[i]) - Number(past[i])\<close>, whatever the
  element type of the buffers; for two grids that hold width times height elements that
  is \<open>present[i] - past[i]\<close> at each of the width times height indices.
\<close>

theorem calculateDrift_shape_and_values:
  "((\<exists>e. calculateDrift past present = Inl e)
      = (width past \<noteq> width present \<or> height past \<noteq> height present))
   \<and> (width past = width present \<and> height past = height present \<longrightarrow>
        (\<exists>drift. calculateDrift past present = Inr drift
           \<and> length drift = length (data past)
           \<and> (\<forall>i<length drift. drift ! i =
                  sub (Number (elem (data present) (int i))) (Number (elem (data past) (int i))))
           \<and> (grid past \<and> grid present \<longrightarrow>
                  length drift = width past * height past
                  \<and> (\<forall>i<length drift. drift ! i = sub (data present ! i) (data past ! i)))))"
  by (auto simp: calculateDrift_def grid_def elem_in_range)

theorem calculateDrift_shape_and_values_witness:
  "width scenario_past = width scenario_present
   \<and> height scenario_past = height scenario_present
   \<and> grid scenario_past \<and> grid scenario_present
   \<and> calculateDrift scenario_past scenario_present = Inr scenario_drift
   \<and> calculateDrift (scenario_past\<lparr>width := 4, height := 1\<rparr>) scenario_present
        = Inl (Error ''Image dimensions do not match'')"
  using calculateDrift_shape_and_values [of scenario_past scenario_present]
  by (simp add: calculateDrift_def grid_def elem_def sub_def upt_conv_Cons)

text \<open>
  C6, as stated, fails on a grid that holds a non-finite value: the drift of the one-pixel
  grid \<open>[Infinity]\<close> against itself is \<open>[NaN]\<close> (\<open>Infinity - Infinity\<close>), which is neither
  zero nor equal to its own negation. A \<open>NaN\<close> pixel behaves the same.
\<close>

theorem calculateDrift_self_nonfinite:
  "calculateDrift \<lparr>width = 1, height = 1, data = [PInf], min_val = PInf, max_val = PInf\<rparr>
                  \<lparr>width = 1, height = 1, data = [PInf], min_val = PInf, max_val = PInf\<rparr>
     = Inr [NaN]
   \<and> strict_eq NaN (Fin 0) = False
   \<and> strict_eq NaN (neg NaN) = False"
  by (simp add: calculateDrift_def elem_def sub_def strict_eq_def)

text \<open>
  C6, amended. For equal-shaped grids \<open>A\<close> and \<open>B\<close> and every index \<open>i\<close> at which both hold
  a finite number, the drift of \<open>A\<close> against itself is zero at \<open>i\<close>, and the drift of \<open>A\<close>
  against \<open>B\<close> at \<open>i\<close> equals (\<open>===\<close>) the negated drift of \<open>B\<close> against \<open>A\<close> at \<open>i\<close>.
\<close>

theorem calculateDrift_antisymmetric_finite:
  assumes "grid A" "grid B" "width A = width B" "height A = height B"
    and "i < width A * height A" "finite_num (data A ! i)" "finite_num (data B ! i)"
  shows "\<exists>dAA dAB dBA. calculateDrift A A = Inr dAA \<and> calculateDrift A B = Inr dAB
           \<and> calculateDrift B A = Inr dBA
           \<and> dAA ! i = Fin 0
           \<and> strict_eq (dAB ! i) (neg (dBA ! i))"
proof -
  obtain a b where ab: "data A ! i = Fin a" "data B ! i = Fin b"
    using assms(6,7) by (cases "data A ! i"; cases "data B ! i") auto
  have len: "i < length (data A)" "i < length (data B)"
    using assms(1-5) by (simp_all add: grid_def)
  show ?thesis
    using assms(3,4) len ab
    by (simp add: calculateDrift_def elem_in_range sub_Fin strict_eq_def)
qed

theorem calculateDrift_antisymmetric_finite_witness:
  "grid scenario_past \<and> grid scenario_present
   \<and> width scenario_past = width scenario_present
   \<and> height scenario_past = height scenario_present
   \<and> (0::nat) < width scenario_past * height scenario_past
   \<and> finite_num (data scenario_past ! 0) \<and> finite_num (data scenario_present ! 0)
   \<and> (\<exists>dAA dAB dBA. calculateDrift scenario_past scenario_past = Inr dAA
         \<and> calculateDrift scenario_past scenario_present = Inr dAB
         \<and> calculateDrift scenario_present scenario_past = Inr dBA
         \<and> dAA ! 0 = Fin 0 \<and> strict_eq (dAB ! 0) (neg (dBA ! 0)))"
  using calculateDrift_antisymmetric_finite [of scenario_past scenario_present 0]
  by (simp add: grid_def)

subsection \<open>Median/MAD scorer\<close>

lemma flag_below_length: "length (fst (flag_below b xs)) = length xs"
  by (induction xs) (auto split: prod.splits)

lemma flag_below_nth:
  "i < length xs \<Longrightarrow> fst (flag_below b xs) ! i = (if lt (xs ! i) b then 1 else 0)"
proof (induction xs arbitrary: i)
  case Nil
  then show ?case by simp
next
  case (Cons x xs)
  then show ?case
    by (cases i) (auto split: prod.splits)
qed

lemma flag_below_count:
  "snd (flag_below b xs) = length (filter (\<lambda>w. w = 1) (fst (flag_below b xs)))"
  by (induction xs) (auto split: prod.splits)

lemma insert_num_mset: "mset (insert_num x xs) = add_mset x (mset xs)"
  by (induction xs) auto

lemma sort_num_mset: "mset (sort_num xs) = mset xs"
  by (induction xs) (auto simp: insert_num_mset)

lemma sort_num_length: "length (sort_num xs) = length xs"
  using sort_num_mset [of xs] by (metis size_mset)

lemma sort_le_total: "sort_le a b \<or> sort_le b a"
  by (cases a; cases b) auto

lemma sort_le_trans: "sort_le x y \<Longrightarrow> sort_le y z \<Longrightarrow> sort_le x z"
  by (cases x; cases y; cases z) auto

lemma insert_num_set: "set (insert_num x xs) = insert x (set xs)"
  by (induction xs) auto

lemma insert_num_sorted:
  "sorted_wrt sort_le xs \<Longrightarrow> sorted_wrt sort_le (insert_num x xs)"
proof (induction xs)
  case Nil
  then show ?case by simp
next
  case (Cons y ys)
  show ?case
  proof (cases "sort_le x y")
    case True
    with Cons.prems show ?thesis
      by (auto intro: sort_le_trans)
  next
    case False
    then have "sort_le y x" using sort_le_total by blast
    with Cons False show ?thesis
      by (auto simp: insert_num_set)
  qed
qed

lemma sort_num_sorted: "sorted_wrt sort_le (sort_num xs)"
  by (induction xs) (auto simp: insert_num_sorted)

lemma flag_below_spec:
  assumes "flag_below b xs = (flags, cnt)"
  shows "length flags = length xs"
    and "i < length xs \<Longrightarrow> flags ! i = (if lt (xs ! i) b then 1 else 0)"
    and "cnt = length (filter (\<lambda>w. w = 1) flags)"
  using assms flag_below_length [of b xs] flag_below_nth [of i xs b] flag_below_count [of b xs]
  by simp_all

text \<open>
  C2. For every drift array (and every outcome of the subsampling), the Median/MAD scorer
  returns a mask as long as the array whose entry at \<open>i\<close> is 1 when \<open>drift[i] < limit\<close> and 0
  otherwise, where \<open>limit = median - 3 * effective\<close> and the effective MAD is the computed
  MAD unless that is 0, when it is 0.01; the count is the number of entries equal to 1.
\<close>

theorem detectAnomalies_mad_flags:
  "(let r = detectAnomalies_mad rnd drift;
        effective = (if mad (stats r) = Some (Fin 0) then Fin 0.01 else Number (mad (stats r)))
    in length (anomalies r) = length drift
       \<and> (\<forall>i<length drift. anomalies r ! i = (if lt (drift ! i) (limit (stats r)) then 1 else 0))
       \<and> limit (stats r) = sub (Number (median (stats r))) (mul (Fin 3) effective)
       \<and> count r = length (filter (\<lambda>w. w = 1) (anomalies r)))"
proof -
  have z: "is_zero m = (m = Some (Fin 0))" for m
    by (cases m) (auto simp: strict_eq_def)
  show ?thesis
    unfolding detectAnomalies_mad_def Let_def
    by (simp add: z flag_below_spec split: prod.splits)
qed

theorem detectAnomalies_mad_flags_witness:
  "detectAnomalies_mad (\<lambda>k. 0) scenario_drift
     = \<lparr>anomalies = [1, 0, 0, 0], count = 1,
        stats = \<lparr>median = Some (Fin 0), mad = Some (Fin 0), limit = Fin (- 0.03)\<rparr>\<rparr>
   \<and> (0::nat) < length scenario_drift
   \<and> lt (scenario_drift ! 0) (Fin (- 0.03)) = True
   \<and> lt (scenario_drift ! 1) (Fin (- 0.03)) = False"
  using detectAnomalies_mad_flags [of "\<lambda>k. 0" scenario_drift]
  by (simp add: detectAnomalies_mad_def robust_sample_def elem_def sub_def strict_eq_def Let_def)

text \<open>
  C7, amended. The median is the element at index \<open>floor(n/2)\<close> of the ascending sort of the
  sample (a sorted permutation of it), and the MAD is the element at the same index of the
  ascending sort of \<open>|x - median|\<close> over the elements of that sample. For an even count
  that index is the upper of the two middle elements.
\<close>

theorem detectAnomalies_mad_median_index:
  "(let r = detectAnomalies_mad rnd drift;
        sample = robust_sample rnd drift;
        sorted = sort_num sample;
        mid = length sample div 2
    in sorted_wrt sort_le sorted \<and> mset sorted = mset sample
       \<and> median (stats r) = elem sorted (int mid)
       \<and> mad (stats r) =
           elem (sort_num (map (\<lambda>x. abs_num (sub x (Number (median (stats r))))) sorted)) (int mid))"
  by (simp add: detectAnomalies_mad_def Let_def sort_num_sorted sort_num_mset sort_num_length
      split: prod.splits)

theorem detectAnomalies_mad_median_index_witness:
  "robust_sample (\<lambda>k. 0) scenario_drift = scenario_drift
   \<and> sort_num scenario_drift = scenario_drift
   \<and> median (stats (detectAnomalies_mad (\<lambda>k. 0) scenario_drift)) = Some (Fin 0)
   \<and> mad (stats (detectAnomalies_mad (\<lambda>k. 0) scenario_drift)) = Some (Fin 0)"
  using detectAnomalies_mad_median_index [of "\<lambda>k. 0" scenario_drift]
  by (simp add: detectAnomalies_mad_def robust_sample_def elem_def sub_def strict_eq_def Let_def)

text \<open>
  C7, as stated, fails: for the sample \<open>[1, 2, 3, 4]\<close> the median computed is 3, the element
  at index 2, while the lower-middle element (index 1) is 2.
\<close>

theorem detectAnomalies_mad_median_upper_middle:
  "median (stats (detectAnomalies_mad (\<lambda>k. 0) [Fin 1, Fin 2, Fin 3, Fin 4])) = Some (Fin 3)
   \<and> sort_num [Fin 1, Fin 2, Fin 3, Fin 4] = [Fin 1, Fin 2, Fin 3, Fin 4]
   \<and> elem (sort_num [Fin 1, Fin 2, Fin 3, Fin 4]) (4 div 2 - 1) = Some (Fin 2)"
  by (simp add: detectAnomalies_mad_def robust_sample_def elem_def sub_def strict_eq_def Let_def)

text \<open>
  C10. For a drift array of at most 1,000,000 elements the sample is the array itself, and
  the result (mask, count, median, MAD and limit) does not depend on the random outcomes.
\<close>

theorem detectAnomalies_mad_deterministic:
  "length drift \<le> 1000000 \<Longrightarrow>
     robust_sample rnd drift = drift
     \<and> detectAnomalies_mad rnd drift = detectAnomalies_mad rnd' drift"
  by (simp add: detectAnomalies_mad_def robust_sample_def)

theorem detectAnomalies_mad_deterministic_witness:
  "length scenario_drift \<le> 1000000
   \<and> robust_sample (\<lambda>k. 0) scenario_drift = scenario_drift
   \<and> detectAnomalies_mad (\<lambda>k. 0) scenario_drift = detectAnomalies_mad (\<lambda>k. 1 / 2) scenario_drift"
  using detectAnomalies_mad_deterministic [of scenario_drift "\<lambda>k. 0" "\<lambda>k. 1 / 2"]
  by simp

subsection \<open>Isolation-forest scorer\<close>

lemma length_subsample: "length (subsample rnd drift s k) = s"
  by (simp add: subsample_def)

lemma buildTree_limit_reached:
  "reached depth h \<Longrightarrow> buildTree h rnd dat depth k = (Leaf (length dat), k)"
  by (simp add: buildTree.simps)

lemma buildForest_height_zero:
  "fst (buildForest t (Height 0) rnd drift s k) = replicate t (Leaf s)"
  by (induction t arbitrary: k)
     (simp_all add: buildTree_limit_reached length_subsample split_beta)

lemma c_one: "c (Suc 0) = 0"
  by (simp add: c_def)

lemma sum_pathLength_leaves:
  "sum_list (map (\<lambda>tree. pathLength v tree 0) (replicate t (Leaf s))) = real t * c s"
  by (induction t) (simp_all add: algebra_simps)

lemma flag_anomalous_length: "length (fst (flag_anomalous t ps)) = length ps"
  by (induction ps) (auto split: prod.splits)

lemma flag_anomalous_nth:
  "i < length ps \<Longrightarrow>
     fst (flag_anomalous t ps) ! i =
       (if gt (fst (ps ! i)) t \<and> lt (snd (ps ! i)) (Fin (- 0.05)) then 1 else 0)"
proof (induction ps arbitrary: i)
  case Nil
  then show ?case by simp
next
  case (Cons p ps)
  then show ?case
    by (cases i; cases p) (auto split: prod.splits)
qed

lemma flag_anomalous_count:
  "snd (flag_anomalous t ps) = length (filter (\<lambda>w. w = 1) (fst (flag_anomalous t ps)))"
  by (induction ps) (auto split: prod.splits)

lemma flag_anomalous_spec:
  assumes "flag_anomalous t ps = (flags, cnt)"
  shows "length flags = length ps"
    and "i < length ps \<Longrightarrow>
           flags ! i = (if gt (fst (ps ! i)) t \<and> lt (snd (ps ! i)) (Fin (- 0.05)) then 1 else 0)"
    and "cnt = length (filter (\<lambda>w. w = 1) flags)"
  using assms flag_anomalous_length [of t ps] flag_anomalous_nth [of i ps t]
    flag_anomalous_count [of t ps]
  by simp_all

lemma flag_anomalous_none:
  "\<forall>p \<in> set ps. \<not> lt (snd p) (Fin (- 0.05)) \<Longrightarrow>
     flag_anomalous t ps = (replicate (length ps) 0, 0)"
  by (induction ps) auto

lemma length_isolationScores: "length (isolationScores rnd drift) = length drift"
  by (simp add: isolationScores_def Let_def split: prod.splits)

lemma ge_not_lt: "ge x y \<Longrightarrow> \<not> lt x y"
  by (simp add: ge_def)

text \<open>
  C3. For every drift array and every outcome of the random choices, the mask entry at
  \<open>i\<close> is 1 exactly when \<open>scores[i] > 0.65\<close> and \<open>drift[i] < -0.05\<close> (and 0 otherwise), so
  every flagged index has both; the count is the number of flagged indices; and when every
  element of the drift array is \<open>>= -0.05\<close> the mask is all zeros and the count is 0,
  whatever the scores.
\<close>

theorem detectAnomalies_sign_gate:
  "(let r = detectAnomalies rnd drift; scores = isolationScores rnd drift
    in length (anomalies r) = length drift
       \<and> (\<forall>i<length drift. anomalies r ! i =
             (if gt (scores ! i) (Fin 0.65) \<and> lt (drift ! i) (Fin (- 0.05)) then 1 else 0))
       \<and> count r = length (filter (\<lambda>w. w = 1) (anomalies r))
       \<and> ((\<forall>x \<in> set drift. ge x (Fin (- 0.05))) \<longrightarrow>
             anomalies r = replicate (length drift) 0 \<and> count r = 0))"
proof -
  let ?scores = "isolationScores rnd drift"
  obtain flags cnt where fl: "flag_anomalous (Fin 0.65) (zip ?scores drift) = (flags, cnt)"
    by (cases "flag_anomalous (Fin 0.65) (zip ?scores drift)")
  have r: "anomalies (detectAnomalies rnd drift) = flags" "count (detectAnomalies rnd drift) = cnt"
    using fl by (simp_all add: detectAnomalies_def Let_def)
  have len: "length (zip ?scores drift) = length drift"
    by (simp add: length_isolationScores)
  have a: "length flags = length drift"
    using flag_anomalous_spec(1) [OF fl] len by simp
  have b: "flags ! i = (if gt (?scores ! i) (Fin 0.65) \<and> lt (drift ! i) (Fin (- 0.05)) then 1 else 0)"
    if "i < length drift" for i
    using flag_anomalous_spec(2) [OF fl, of i] that len by (simp add: length_isolationScores)
  have d: "flags = replicate (length drift) 0 \<and> cnt = 0"
    if "\<forall>x \<in> set drift. ge x (Fin (- 0.05))"
  proof -
    have "\<forall>p \<in> set (zip ?scores drift). \<not> lt (snd p) (Fin (- 0.05))"
      using that by (auto dest!: set_zip_rightD ge_not_lt)
    from flag_anomalous_none [OF this, of "Fin 0.65"] fl len show ?thesis by simp
  qed
  show ?thesis
    unfolding Let_def r
    using a b d flag_anomalous_spec(3) [OF fl] by blast
qed

text \<open>
  A run that flags a pixel: the drift \<open>[-1, 0, 0, 0, 0]\<close> with random outcomes that make
  every subsample the array itself and every split value \<open>-1/2\<close>. Each tree isolates the
  value \<open>-1\<close> at depth 1, its score is \<open>2^(-1 / c(5))\<close>, above 0.65, and index 0 is the
  only one flagged.
\<close>

lemma ceillog2_5: "ceillog2 5 = 3"
  by (rule ceillog2_eqI) simp_all

lemma dip_sample: "subsample cycle_rnd dip_drift 5 (6 * t) = dip_drift"
proof -
  have idx: "[0..<5] = [0, 1, 2, 3, 4]"
    by (simp add: upt_conv_Cons)
  have m: "(6 * t + j) mod 6 = j mod 6" for j
    by simp
  have r: "cycle_rnd (6 * t + 0) = 0" "cycle_rnd (6 * t + 1) = 1 / 5"
    "cycle_rnd (6 * t + 2) = 2 / 5" "cycle_rnd (6 * t + 3) = 3 / 5" "cycle_rnd (6 * t + 4) = 4 / 5"
    unfolding cycle_rnd_def m by simp_all
  show ?thesis
    unfolding subsample_def idx list.map r
    by (simp add: elem_def)
qed

lemma dip_buildTree:
  "buildTree (Height 3) cycle_rnd dip_drift 0 (6 * t + 5) = (dip_tree, 6 * t + 6)"
proof -
  have m: "(6 * t + 5) mod 6 = 5"
    by simp
  have split: "cycle_rnd (6 * t + 5) = 1 / 2"
    unfolding cycle_rnd_def m by simp
  have l: "buildTree (Height 3) cycle_rnd [Fin (- 1)] (Suc 0) k = (Leaf 1, k)" for k
    by (simp add: buildTree.simps [of _ _ "[Fin (- 1)]"])
  have r: "buildTree (Height 3) cycle_rnd [Fin 0, Fin 0, Fin 0, Fin 0] (Suc 0) k = (Leaf 4, k)" for k
    by (simp add: buildTree.simps [of _ _ "[Fin 0, Fin 0, Fin 0, Fin 0]"]
        min_of_def max_of_def gt_def strict_eq_def)
  show ?thesis
    by (simp add: buildTree.simps [of _ _ dip_drift] min_of_def max_of_def gt_def strict_eq_def
        split sub_def l r)
qed

lemma dip_forest:
  "fst (buildForest m (Height 3) cycle_rnd dip_drift 5 (6 * t)) = replicate m dip_tree"
proof (induction m arbitrary: t)
  case 0
  then show ?case by simp
next
  case (Suc m)
  have step: "6 * t + 6 = 6 * Suc t" by simp
  have "buildForest (Suc m) (Height 3) cycle_rnd dip_drift 5 (6 * t)
          = (dip_tree # fst (buildForest m (Height 3) cycle_rnd dip_drift 5 (6 * Suc t)),
             snd (buildForest m (Height 3) cycle_rnd dip_drift 5 (6 * Suc t)))"
    by (simp only: buildForest.simps Let_def dip_sample dip_buildTree prod.case step split_beta
        fst_conv snd_conv)
  then show ?case
    by (simp only: fst_conv Suc.IH replicate_Suc)
qed

lemma ln2_ge: "7 / 12 \<le> ln (2::real)"
proof -
  have a: "ln (3 / 4 :: real) \<le> 3 / 4 - 1" by (rule ln_le_minus_one) simp
  have b: "ln (2 / 3 :: real) \<le> 2 / 3 - 1" by (rule ln_le_minus_one) simp
  have "ln (3 / 4 * (2 / 3) :: real) = ln (3 / 4) + ln (2 / 3)"
    by (rule ln_mult_pos) simp_all
  moreover have "ln (3 / 4 * (2 / 3) :: real) = - ln 2"
    by (simp add: ln_div)
  ultimately show ?thesis using a b by linarith
qed

lemma c5_ge: "15 / 8 \<le> c 5"
proof -
  have "ln (4::real) = 2 * ln 2"
    using ln_realpow [of 2 2] by simp
  with ln2_ge have "7 / 6 \<le> ln (4::real)" by linarith
  then show ?thesis by (simp add: c_def)
qed

lemma dip_score: "13 / 20 < (2::real) powr (- 1 / c 5)"
proof -
  have c5: "0 < c 5" using c5_ge by linarith
  have "(13::real) ^ 15 * 2 ^ 8 < 20 ^ 15" by simp
  then have "(13 / 20 :: real) ^ 15 < 1 / 2 ^ 8"
    by (simp add: power_divide field_simps)
  moreover have "(13 / 20 :: real) powr 15 = (13 / 20) ^ 15"
    by (rule powr_numeral) simp
  moreover have "(2::real) powr (- 8) = 1 / 2 ^ 8"
    by (rule powr_neg_numeral) simp
  ultimately have lt: "(13 / 20 :: real) powr 15 < 2 powr (- 8)"
    by (simp only:)
  have mono: "((13 / 20 :: real) powr 15) powr (1 / 15) < ((2::real) powr (- 8)) powr (1 / 15)"
    using lt by (intro powr_less_mono2) simp_all
  have "((13 / 20 :: real) powr 15) powr (1 / 15) = (13 / 20) powr (15 * (1 / 15))"
    by (rule powr_powr)
  then have root: "((13 / 20 :: real) powr 15) powr (1 / 15) = 13 / 20"
    by simp
  have "((2::real) powr (- 8)) powr (1 / 15) = 2 powr (- 8 * (1 / 15))"
    by (rule powr_powr)
  then have root2: "((2::real) powr (- 8)) powr (1 / 15) = 2 powr (- 8 / 15)"
    by simp
  have "(13 / 20 :: real) < 2 powr (- 8 / 15)"
    using mono by (simp only: root root2)
  also have "- 8 / 15 \<le> - 1 / c 5"
    using c5_ge c5 by (simp add: field_simps)
  then have "(2::real) powr (- 8 / 15) \<le> 2 powr (- 1 / c 5)"
    by (intro powr_mono) simp_all
  finally show ?thesis .
qed

lemma dip_scores:
  "isolationScores cycle_rnd dip_drift ! 0 = Fin (2 powr (- 1 / c 5))"
proof -
  have n: "min (length dip_drift) 256 = (5::nat)" by simp
  have h: "heightLimit 5 = Height 3" by (simp add: heightLimit_def ceillog2_5)
  have f: "fst (buildForest numTrees (Height 3) cycle_rnd dip_drift 5 0) = replicate numTrees dip_tree"
    using dip_forest [of numTrees 0] by simp
  have c5: "c 5 \<noteq> 0" using c5_ge by linarith
  have "score (replicate numTrees dip_tree) 5 (Fin (- 1)) = Fin (2 powr (- 1 / c 5))"
    by (simp add: score_def Let_def sum_list_replicate numTrees_def c5 c_one)
  then show ?thesis
    unfolding isolationScores_def Let_def n h split_beta f by simp
qed

lemma dip_flagged:
  "anomalies (detectAnomalies cycle_rnd dip_drift) = [1, 0, 0, 0, 0]
   \<and> count (detectAnomalies cycle_rnd dip_drift) = 1"
proof -
  have len: "length (isolationScores cycle_rnd dip_drift) = 5"
    by (simp add: length_isolationScores)
  then obtain s0 s1 s2 s3 s4 where
    s: "isolationScores cycle_rnd dip_drift = [s0, s1, s2, s3, s4]"
    by (auto simp: length_Suc_conv eval_nat_numeral)
  with dip_scores have s0: "s0 = Fin (2 powr (- 1 / c 5))" by simp
  show ?thesis
    using dip_score by (simp add: detectAnomalies_def Let_def s s0 gt_def)
qed

theorem detectAnomalies_sign_gate_witness:
  "isolationScores (\<lambda>k. 0) [Fin 0.3, Fin 0.3] = [Fin 0.5, Fin 0.5]
   \<and> ge (Fin 0.3) (Fin (- 0.05)) = True
   \<and> detectAnomalies (\<lambda>k. 0) [Fin 0.3, Fin 0.3] =
        \<lparr>anomalies = [0, 0], count = 0,
         stats = \<lparr>maxScore = Fin 0.5, minScore = Fin 0.5, threshold = Fin 0.65\<rparr>\<rparr>
   \<and> anomalies (detectAnomalies cycle_rnd dip_drift) = [1, 0, 0, 0, 0]
   \<and> count (detectAnomalies cycle_rnd dip_drift) = 1
   \<and> gt (isolationScores cycle_rnd dip_drift ! 0) (Fin 0.65) = True
   \<and> lt (dip_drift ! 0) (Fin (- 0.05)) = True"
proof -
  have tree: "buildTree (Height 1) (\<lambda>k. 0) [Fin 0.3, Fin 0.3] 0 k = (Leaf 2, k)" for k
    by (simp add: buildTree.simps [of _ _ _ 0] min_of_def max_of_def strict_eq_def gt_def)
  have sample: "subsample (\<lambda>k. 0) [Fin 0.3, Fin 0.3] 2 k = [Fin 0.3, Fin 0.3]" for k
    by (simp add: subsample_def elem_def upt_conv_Cons numeral_2_eq_2)
  have forest: "fst (buildForest t (Height 1) (\<lambda>k. 0) [Fin 0.3, Fin 0.3] 2 k)
                  = replicate t (Leaf 2)" for t k
    by (induction t arbitrary: k) (simp_all add: tree sample split_beta)
  have c2: "c 2 = 2 * 0.5772156649 - 1"
    by (simp add: c_def)
  have n: "min (length [Fin 0.3, Fin 0.3]) 256 = (2::nat)"
    by simp
  have h: "heightLimit 2 = Height 1"
    by (simp add: heightLimit_def)
  have scores: "isolationScores (\<lambda>k. 0) [Fin 0.3, Fin 0.3] = [Fin 0.5, Fin 0.5]"
    unfolding isolationScores_def Let_def n h split_beta forest score_def sum_pathLength_leaves
    by (simp add: numTrees_def c2 powr_minus)
  have above: "ge (Fin 0.3) (Fin (- 0.05))"
    by (simp add: ge_def)
  have flat: "detectAnomalies (\<lambda>k. 0) [Fin 0.3, Fin 0.3] =
        \<lparr>anomalies = [0, 0], count = 0,
         stats = \<lparr>maxScore = Fin 0.5, minScore = Fin 0.5, threshold = Fin 0.65\<rparr>\<rparr>"
    using detectAnomalies_sign_gate [of "\<lambda>k. 0" "[Fin 0.3, Fin 0.3]"] scores above
    by (simp add: Let_def detectAnomalies_def gt_def)
  have flagged: "anomalies (detectAnomalies cycle_rnd dip_drift) ! 0 = 1"
    using dip_flagged by simp
  have "anomalies (detectAnomalies cycle_rnd dip_drift) ! 0 =
          (if gt (isolationScores cycle_rnd dip_drift ! 0) (Fin 0.65)
              \<and> lt (dip_drift ! 0) (Fin (- 0.05)) then 1 else 0)"
    using detectAnomalies_sign_gate [of cycle_rnd dip_drift] by (simp add: Let_def)
  with flagged have signs: "gt (isolationScores cycle_rnd dip_drift ! 0) (Fin 0.65)
                             \<and> lt (dip_drift ! 0) (Fin (- 0.05))"
    by (simp split: if_splits)
  show ?thesis
    using scores above flat dip_flagged signs by simp
qed

text \<open>
  C8 fails on a drift array of one element, for every value and every random outcome: the
  subsample size is 1, every tree is a leaf of size 1, the average path length is 0 and
  \<open>c(1)\<close> is 0, so the score is \<open>Math.pow(2, -0 / 0)\<close>, which is \<open>NaN\<close> and lies in no
  interval. The statistics keep their initial values.
\<close>

theorem isolationScores_single_NaN:
  "isolationScores rnd [x] = [NaN]
   \<and> ge NaN (Fin 0) = False \<and> ge (Fin 1) NaN = False
   \<and> detectAnomalies rnd [x] =
       \<lparr>anomalies = [0], count = 0,
        stats = \<lparr>maxScore = NInf, minScore = PInf, threshold = Fin 0.65\<rparr>\<rparr>"
proof -
  have s: "isolationScores rnd [x] = [NaN]"
    by (simp add: isolationScores_def heightLimit_def split_beta buildForest_height_zero
        score_def sum_pathLength_leaves c_one sum_list_replicate)
  show ?thesis
    by (simp add: s detectAnomalies_def ge_def gt_def)
qed

lemma ln2_ge_half: "1 / 2 \<le> ln (2::real)"
proof -
  have "ln (1 / 2 :: real) \<le> 1 / 2 - 1"
    by (rule ln_le_minus_one) simp
  moreover have "ln (1 / 2 :: real) = - ln 2"
    by (simp add: ln_div)
  ultimately show ?thesis by simp
qed

lemma c_pos: assumes "2 \<le> sz" shows "0 < c sz"
proof (cases "sz = 2")
  case True
  then show ?thesis by (simp add: c_def)
next
  case False
  with assms have sz: "3 \<le> sz" by simp
  then have "ln 2 \<le> ln (real (sz - 1))"
    by (subst ln_le_cancel_iff) auto
  with ln2_ge_half have l: "1 / 2 \<le> ln (real (sz - 1))" by linarith
  have "2 * real (sz - 1) / real sz \<le> 2"
    using sz by (simp add: field_simps)
  with l sz show ?thesis by (simp add: c_def)
qed

lemma c_nonneg: "0 \<le> c sz"
  using c_pos [of sz] by (cases "2 \<le> sz") (auto simp: c_def)

lemma pathLength_nonneg: "0 \<le> pathLength v t d"
  by (induction t arbitrary: d) (auto simp: c_nonneg)

lemma score_unit_interval:
  assumes "2 \<le> s"
  shows "\<exists>r. score forest s v = Fin r \<and> 0 < r \<and> r \<le> 1"
proof -
  let ?avg = "sum_list (map (\<lambda>tree. pathLength v tree 0) forest) / real numTrees"
  have "0 \<le> sum_list (map (\<lambda>tree. pathLength v tree 0) forest)"
    by (rule sum_list_nonneg) (auto simp: pathLength_nonneg)
  then have avg: "0 \<le> ?avg" by simp
  have cs: "0 < c s" using assms by (rule c_pos)
  have "- ?avg / c s \<le> 0"
    by (rule divide_nonpos_pos) (use avg cs in simp_all)
  then have "(2::real) powr (- ?avg / c s) \<le> 2 powr 0"
    by (intro powr_mono) simp_all
  then have "(2::real) powr (- ?avg / c s) \<le> 1"
    by simp
  moreover have "0 < (2::real) powr (- ?avg / c s)" by simp
  moreover have "score forest s v = Fin (2 powr (- ?avg / c s))"
    using cs by (simp add: score_def Let_def)
  ultimately show ?thesis by blast
qed

text \<open>
  For a drift array of at least two elements the size correction of the subsample is
  positive and every path length is non-negative, so every score is a finite number in
  the interval from 0 (excluded) to 1.
\<close>

theorem isolationScores_unit_interval:
  "2 \<le> length drift \<Longrightarrow> i < length drift \<Longrightarrow>
     \<exists>r. isolationScores rnd drift ! i = Fin r \<and> 0 < r \<and> r \<le> 1"
  by (simp add: isolationScores_def Let_def score_unit_interval split: prod.splits)

subsection \<open>Harmonic analysis\<close>

lemma cis_int_period: "cis (2 * pi * real_of_int m) = 1"
  by (rule cis_multiple_2pi) simp

lemma cis_eq_one_iff: "cis t = 1 \<longleftrightarrow> (\<exists>q::int. t = 2 * pi * real_of_int q)"
proof
  assume "cis t = 1"
  then have "cos t = 1"
    by (simp add: complex_eq_iff)
  then obtain q :: int where "t = real_of_int q * 2 * pi"
    using cos_one_2pi_int by blast
  then show "\<exists>q::int. t = 2 * pi * real_of_int q"
    by (intro exI [of _ q]) simp
next
  assume "\<exists>q::int. t = 2 * pi * real_of_int q"
  then show "cis t = 1"
    by (auto simp: cis_int_period)
qed

lemma root_eq_one_iff:
  assumes "0 < P"
  shows "cis (2 * pi * real_of_int m / real P) = 1 \<longleftrightarrow> int P dvd m"
proof
  assume "cis (2 * pi * real_of_int m / real P) = 1"
  then obtain q :: int where "2 * pi * real_of_int m / real P = 2 * pi * real_of_int q"
    using cis_eq_one_iff by blast
  then have "real_of_int m = real_of_int q * real P"
    using assms by (simp add: field_simps)
  then have "real_of_int m = real_of_int (q * int P)"
    by simp
  then have "m = q * int P"
    using of_int_eq_iff by blast
  then show "int P dvd m" by simp
next
  assume "int P dvd m"
  then obtain q where "m = int P * q" ..
  then have "2 * pi * real_of_int m / real P = 2 * pi * real_of_int q"
    using assms by simp
  then show "cis (2 * pi * real_of_int m / real P) = 1"
    by (simp add: cis_int_period)
qed

lemma roots_sum:
  assumes "0 < P"
  shows "(\<Sum>k<P. cis (2 * pi * real_of_int m / real P * real k))
           = (if int P dvd m then of_nat P else 0)"
proof -
  let ?z = "cis (2 * pi * real_of_int m / real P)"
  have pow: "cis (2 * pi * real_of_int m / real P * real k) = ?z ^ k" for k
    by (simp add: DeMoivre mult.commute)
  have sum: "(\<Sum>k<P. cis (2 * pi * real_of_int m / real P * real k)) = (\<Sum>k<P. ?z ^ k)"
    by (simp only: pow)
  show ?thesis
  proof (cases "int P dvd m")
    case True
    then have "?z = 1" using root_eq_one_iff [OF assms] by simp
    then have "(\<Sum>k<P. ?z ^ k) = of_nat P" by simp
    then show ?thesis using True sum by simp
  next
    case False
    then have ne: "?z \<noteq> 1" using root_eq_one_iff [OF assms] by simp
    have "?z ^ P = cis (2 * pi * real_of_int m)"
      using assms by (simp add: DeMoivre)
    then have "?z ^ P = 1" by (simp add: cis_int_period)
    then have "(\<Sum>k<P. ?z ^ k) = 0"
      using ne by (simp add: geometric_sum)
    then show ?thesis using False sum by simp
  qed
qed

lemma length_transform: "length (transform xs) = length xs"
  by (simp add: transform_def)

lemma length_inverseTransform: "length (inverseTransform xs) = length xs"
  by (simp add: inverseTransform_def)

lemma transform_nth: "k < length xs \<Longrightarrow> transform xs ! k = dft_sum (- 1) xs k"
  by (simp add: transform_def)

lemma inverseTransform_nth:
  "k < length xs \<Longrightarrow> inverseTransform xs ! k = dft_sum 1 xs k / of_nat (length xs)"
  by (simp add: inverseTransform_def)

lemma dvd_small_diff:
  assumes "i < P" "j < P"
  shows "int P dvd (int i - int j) \<longleftrightarrow> j = i"
proof
  assume d: "int P dvd (int i - int j)"
  have "\<bar>int i - int j\<bar> < int P" using assms by linarith
  with d have "int i - int j = 0"
    using zdvd_not_zless [of "\<bar>int i - int j\<bar>" "int P"] by (cases "int i - int j = 0") auto
  then show "j = i" by simp
next
  assume "j = i"
  then show "int P dvd (int i - int j)" by simp
qed

lemma twiddle_product:
  "cis (- 1 * (2 * pi * real j * real k / real P)) * cis (1 * (2 * pi * real k * real i / real P))
     = cis (2 * pi * real_of_int (int i - int j) / real P * real k)"
proof -
  have "- 1 * (2 * pi * real j * real k / real P) + 1 * (2 * pi * real k * real i / real P)
          = 2 * pi * real_of_int (int i - int j) / real P * real k"
    by (simp add: algebra_simps diff_divide_distrib)
  then show ?thesis
    by (simp only: cis_mult)
qed

lemma transform_inversion:
  assumes "i < length xs"
  shows "dft_sum 1 (transform xs) i = of_nat (length xs) * xs ! i"
proof -
  let ?P = "length xs"
  have P: "0 < ?P" using assms by (cases xs) simp_all
  have "dft_sum 1 (transform xs) i
          = (\<Sum>k<?P. dft_sum (- 1) xs k * cis (1 * (2 * pi * real k * real i / real ?P)))"
    by (simp add: dft_sum_def [of 1] length_transform transform_nth)
  also have "\<dots> = (\<Sum>k<?P. \<Sum>j<?P. xs ! j *
                       (cis (- 1 * (2 * pi * real j * real k / real ?P))
                          * cis (1 * (2 * pi * real k * real i / real ?P))))"
    by (simp only: dft_sum_def sum_distrib_right mult.assoc)
  also have "\<dots> = (\<Sum>k<?P. \<Sum>j<?P. xs ! j *
                       cis (2 * pi * real_of_int (int i - int j) / real ?P * real k))"
    by (simp only: twiddle_product)
  also have "\<dots> = (\<Sum>j<?P. \<Sum>k<?P. xs ! j *
                       cis (2 * pi * real_of_int (int i - int j) / real ?P * real k))"
    by (rule sum.swap)
  also have "\<dots> = (\<Sum>j<?P. xs ! j * (if int ?P dvd (int i - int j) then of_nat ?P else 0))"
    by (simp only: sum_distrib_left [symmetric] roots_sum [OF P])
  also have "\<dots> = (\<Sum>j<?P. if j = i then xs ! j * of_nat ?P else 0)"
    by (rule sum.cong) (simp_all add: dvd_small_diff [OF assms])
  also have "\<dots> = xs ! i * of_nat ?P"
    using assms by (simp add: sum.delta)
  finally show ?thesis by (simp add: mult.commute)
qed

lemma transform_constant:
  assumes "k < P"
  shows "dft_sum (- 1) (replicate P v) k = (if k = 0 then of_nat P * v else 0)"
proof -
  have P: "0 < P" using assms by simp
  have arg: "- 1 * (2 * pi * real j * real k / real P)
               = 2 * pi * real_of_int (- int k) / real P * real j" for j
    by simp
  have "dft_sum (- 1) (replicate P v) k
          = (\<Sum>j<P. v * cis (- 1 * (2 * pi * real j * real k / real P)))"
    by (simp add: dft_sum_def)
  also have "\<dots> = v * (\<Sum>j<P. cis (2 * pi * real_of_int (- int k) / real P * real j))"
    by (simp only: arg sum_distrib_left)
  also have "\<dots> = v * (if int P dvd (- int k) then of_nat P else 0)"
    by (simp only: roots_sum [OF P])
  also have "\<dots> = (if k = 0 then of_nat P * v else 0)"
    using assms dvd_small_diff [of 0 P k] P by (simp add: mult.commute)
  finally show ?thesis .
qed

lemma nextPow2_pos: "0 < nextPow2 n"
  by (simp add: nextPow2_def)

lemma nextPow2_ge: "n \<le> nextPow2 n"
  using le_two_power_ceillog2 [of n] by (cases "n = 0") (simp_all add: nextPow2_def max_def)

lemma nextPow2_small: assumes "n \<le> 16" shows "nextPow2 n \<le> 16"
proof (cases "n = 0")
  case True
  then show ?thesis by (simp add: nextPow2_def)
next
  case False
  then have "ceillog2 n \<le> 4"
    using assms ceillog2_le_iff [of n 4] by simp
  then have "(2::nat) ^ ceillog2 n \<le> 2 ^ 4"
    by (intro power_increasing) simp_all
  then show ?thesis using False by (simp add: nextPow2_def)
qed

lemma nextPow2_power: assumes "0 < m" shows "nextPow2 (2 ^ m) = 2 ^ m"
proof -
  have "(2::nat) ^ 1 \<le> 2 ^ m"
    using assms by (intro power_increasing) simp_all
  then have "(2::nat) \<le> 2 ^ m" by simp
  moreover have "ceillog2 (2 ^ m) = m" by (rule ceillog2_2_power)
  ultimately show ?thesis
    by (simp only: nextPow2_def max_def) simp
qed

lemma length_fill_input: "length (fill_input history len) = len"
  by (simp add: fill_input_def)

lemma fill_input_nth:
  "i < len \<Longrightarrow> fill_input history len ! i =
     (if i < length history then Complex (ndvi (history ! i)) 0 else Complex 0 0)"
  by (simp add: fill_input_def)

lemma lowpass_small: assumes "length output \<le> 20" shows "lowpass output = output"
proof -
  have "(if cutoff \<le> i \<and> int i < int (length output) - int cutoff then 0 else output ! i)
          = output ! i" for i
    using assms by (auto simp: cutoff_def)
  then show ?thesis
    by (simp add: lowpass_def map_nth)
qed

lemma lowpass_zero_tail:
  assumes "\<And>i. cutoff \<le> i \<Longrightarrow> i < length output \<Longrightarrow> output ! i = 0"
  shows "lowpass output = output"
proof (rule nth_equalityI)
  show "length (lowpass output) = length output"
    by (simp add: lowpass_def)
next
  fix i assume "i < length (lowpass output)"
  then have i: "i < length output" by (simp add: lowpass_def)
  then show "lowpass output ! i = output ! i"
    using assms [of i] by (simp add: lowpass_def)
qed

lemma inverse_of_transform:
  assumes "i < length xs"
  shows "inverseTransform (transform xs) ! i = xs ! i"
proof -
  have "0 < length xs" using assms by (cases xs) simp_all
  then show ?thesis
    using assms by (simp add: inverseTransform_nth length_transform transform_inversion)
qed

lemma performHarmonicAnalysis_unfiltered:
  assumes "lowpass (transform (fill_input history (nextPow2 (length history))))
             = transform (fill_input history (nextPow2 (length history)))"
  shows "performHarmonicAnalysis history
           = map (\<lambda>p. p\<lparr>seasonal := ndvi p / real (nextPow2 (length history))\<rparr>) history"
proof (rule nth_equalityI)
  show "length (performHarmonicAnalysis history)
          = length (map (\<lambda>p. p\<lparr>seasonal := ndvi p / real (nextPow2 (length history))\<rparr>) history)"
    by (simp add: performHarmonicAnalysis_def Let_def)
next
  fix i assume "i < length (performHarmonicAnalysis history)"
  then have i: "i < length history"
    by (simp add: performHarmonicAnalysis_def Let_def)
  let ?P = "nextPow2 (length history)"
  let ?input = "fill_input history ?P"
  have iP: "i < ?P" using i nextPow2_ge [of "length history"] by linarith
  have "inverseTransform (transform ?input) ! i = ?input ! i"
    using iP by (simp add: inverse_of_transform length_fill_input)
  also have "\<dots> = Complex (ndvi (history ! i)) 0"
    using i iP by (simp add: fill_input_nth)
  finally have "Re (inverseTransform (transform ?input) ! i) = ndvi (history ! i)"
    by simp
  then show "performHarmonicAnalysis history ! i
               = map (\<lambda>p. p\<lparr>seasonal := ndvi p / real ?P\<rparr>) history ! i"
    using i assms by (simp add: performHarmonicAnalysis_def Let_def)
qed




lemma fill_input_constant:
  assumes "\<forall>p \<in> set history. ndvi p = v"
  shows "fill_input history (length history) = replicate (length history) (Complex v 0)"
  by (rule nth_equalityI) (use assms in \<open>simp_all add: length_fill_input fill_input_nth\<close>)

text \<open>
  A constant-valued series whose length is at most 16 (no bin is zeroed) or an exact power
  of two (nothing is padded, the signal is pure DC) passes the filter unchanged, and the
  seasonal estimate is the constant divided by the size.
\<close>

lemma performHarmonicAnalysis_constant:
  assumes "\<forall>p \<in> set history. ndvi p = v"
    and "length history \<le> 16 \<or> (\<exists>m. length history = 2 ^ m)"
    and "i < length history"
  shows "seasonal (performHarmonicAnalysis history ! i) = v / real (nextPow2 (length history))"
proof -
  let ?n = "length history"
  let ?input = "fill_input history (nextPow2 ?n)"
  have unfiltered: "lowpass (transform ?input) = transform ?input"
  proof (cases "?n \<le> 16")
    case True
    then have "nextPow2 ?n \<le> 16" by (rule nextPow2_small)
    then show ?thesis
      by (intro lowpass_small) (simp add: length_transform length_fill_input)
  next
    case False
    with assms(2) obtain m where m: "?n = 2 ^ m" by blast
    with False have "0 < m" by (cases m) simp_all
    then have P: "nextPow2 ?n = ?n" using m nextPow2_power [of m] by simp
    have input: "?input = replicate ?n (Complex v 0)"
      using fill_input_constant [OF assms(1)] P by simp
    show ?thesis
    proof (rule lowpass_zero_tail)
      fix k assume k: "cutoff \<le> k" "k < length (transform ?input)"
      then have "k < ?n" "k \<noteq> 0"
        by (simp_all add: length_transform length_fill_input P cutoff_def)
      then show "transform ?input ! k = 0"
        using transform_constant [of k ?n "Complex v 0"]
        by (simp add: input transform_nth)
    qed
  qed
  have "performHarmonicAnalysis history ! i
          = (history ! i)\<lparr>seasonal := ndvi (history ! i) / real (nextPow2 ?n)\<rparr>"
    using performHarmonicAnalysis_unfiltered [OF unfiltered] assms(3) by simp
  then show ?thesis
    using assms(1,3) by simp
qed

lemma nextPow2_4: "nextPow2 4 = 4"
  using nextPow2_power [of 2] by simp

lemma nextPow2_32: "nextPow2 32 = 32"
  using nextPow2_power [of 5] by simp

text \<open>
  C4 fails on the code: the inverse transform already divides by the size, and the function
  divides by the size again, against its own comment. For the constant series of four
  points with observed value 0.6 every seasonal estimate is 0.6 / 4 = 0.15, and for 32
  points it is 0.6 / 32 = 0.01875, not 0.6.
\<close>

theorem performHarmonicAnalysis_constant_divided_twice:
  "ndvi sample_point = 0.6
   \<and> seasonal (performHarmonicAnalysis (replicate 4 sample_point) ! 2) = 0.15
   \<and> seasonal (performHarmonicAnalysis (replicate 32 sample_point) ! 20) = 0.01875"
proof -
  have pow: "\<exists>m. length (replicate 32 sample_point) = 2 ^ m"
    by (intro exI [of _ 5]) simp
  have a: "seasonal (performHarmonicAnalysis (replicate 4 sample_point) ! 2) = 0.6 / 4"
    using performHarmonicAnalysis_constant [of "replicate 4 sample_point" "0.6" 2]
    by (simp add: nextPow2_4)
  have b: "seasonal (performHarmonicAnalysis (replicate 32 sample_point) ! 20) = 0.6 / 32"
    using performHarmonicAnalysis_constant [of "replicate 32 sample_point" "0.6" 20] pow
    by (simp add: nextPow2_32)
  show ?thesis
    using a b by simp
qed

lemma sum_multiples:
  fixes a b :: nat
  assumes "0 < b"
  shows "(\<Sum>k<a * b. if b dvd k then f k else 0) = (\<Sum>q<a. f (b * q))"
proof -
  have set: "{k. k < a * b \<and> b dvd k} = (\<lambda>q. b * q) ` {..<a}"
  proof (rule set_eqI, rule iffI)
    fix k assume "k \<in> {k. k < a * b \<and> b dvd k}"
    then obtain q where q: "k = b * q" and lt: "k < a * b" by (auto elim: dvdE)
    from lt q assms have "q < a" by (simp add: mult.commute [of a b])
    with q show "k \<in> (\<lambda>q. b * q) ` {..<a}" by blast
  next
    fix k assume "k \<in> (\<lambda>q. b * q) ` {..<a}"
    then obtain q where "k = b * q" "q < a" by blast
    with assms show "k \<in> {k. k < a * b \<and> b dvd k}" by (simp add: mult.commute [of a b])
  qed
  have "(\<Sum>k<a * b. if b dvd k then f k else 0) = sum f ({..<a * b} \<inter> {k. b dvd k})"
    by (simp add: sum.If_cases)
  also have "{..<a * b} \<inter> {k. b dvd k} = (\<lambda>q. b * q) ` {..<a}"
    using set by auto
  also have "sum f ((\<lambda>q. b * q) ` {..<a}) = (\<Sum>q<a. f (b * q))"
    using assms by (subst sum.reindex) (auto simp: inj_on_def)
  finally show ?thesis .
qed

lemma dft_decimated:
  assumes "0 < a" "0 < b" "length xs = a * b" and d: "d = 1 \<or> d = - 1"
  shows "(\<Sum>m<b. dft_sum (real_of_int d) xs (a * m)) = of_nat b * (\<Sum>q<a. xs ! (b * q))"
proof -
  have arg: "real_of_int d * (2 * pi * real j * real (a * m) / real (a * b))
               = 2 * pi * real_of_int (d * int j) / real b * real m" for j m
    using assms(1,2) by (simp add: field_simps)
  have dvd: "int b dvd d * int j \<longleftrightarrow> b dvd j" for j
    using d by (auto simp: int_dvd_int_iff)
  have "(\<Sum>m<b. dft_sum (real_of_int d) xs (a * m))
          = (\<Sum>m<b. \<Sum>j<a * b. xs ! j * cis (2 * pi * real_of_int (d * int j) / real b * real m))"
    by (simp only: dft_sum_def assms(3) arg)
  also have "\<dots> = (\<Sum>j<a * b. \<Sum>m<b. xs ! j * cis (2 * pi * real_of_int (d * int j) / real b * real m))"
    by (rule sum.swap)
  also have "\<dots> = (\<Sum>j<a * b. xs ! j * (if int b dvd d * int j then of_nat b else 0))"
    by (simp only: sum_distrib_left [symmetric] roots_sum [OF assms(2)])
  also have "\<dots> = (\<Sum>j<a * b. if b dvd j then of_nat b * xs ! j else 0)"
    by (rule sum.cong) (simp_all add: dvd mult.commute)
  also have "\<dots> = (\<Sum>q<a. of_nat b * xs ! (b * q))"
    by (rule sum_multiples [OF assms(2)])
  finally show ?thesis
    by (simp add: sum_distrib_left)
qed

lemma sum_prefix:
  "(\<Sum>j<n + m. if j < n then f j else (0::complex)) = (\<Sum>j<(n::nat). f j)"
proof -
  have "(\<Sum>j<n + m. if j < n then f j else 0) = sum f ({..<n + m} \<inter> {j. j < n})"
    by (subst sum.If_cases) simp_all
  also have "{..<n + m} \<inter> {j. j < n} = {..<n}" by auto
  finally show ?thesis .
qed

lemma alternating_sum_odd: "(\<Sum>j<2 * n + 1. (- 1) ^ j) = (1::complex)"
  by (induction n) simp_all

lemma cis_minus_pi: "cis (- pi) = - 1"
  by (simp add: complex_eq_iff)

lemma sum_eight:
  "(\<Sum>m<(8::nat). h m) = h 0 + h 1 + h 2 + h 3 + h 4 + h 5 + h 6 + (h 7 :: 'a :: comm_monoid_add)"
  by (simp add: eval_nat_numeral add.assoc)

lemma sum_four:
  "(\<Sum>m<(4::nat). h m) = h 0 + h 1 + h 2 + (h 3 :: 'a :: comm_monoid_add)"
  by (simp add: eval_nat_numeral add.assoc)

lemma ceillog2_29: "ceillog2 29 = 5"
  by (rule ceillog2_eqI) simp_all

lemma nextPow2_29: "nextPow2 29 = 32"
  by (simp add: nextPow2_def ceillog2_29)

lemma padded_nth:
  "j < 32 \<Longrightarrow> fill_input (replicate 29 unit_point) 32 ! j = (if j < 29 then 1 else 0)"
  by (simp add: fill_input_nth complex_eq_iff)

lemma padded_bin16: "dft_sum (- 1) (fill_input (replicate 29 unit_point) 32) 16 = 1"
proof -
  let ?x = "fill_input (replicate 29 unit_point) 32"
  have tw: "cis (- 1 * (2 * pi * real j * real (16::nat) / real (32::nat))) = (- 1) ^ j" for j
  proof -
    have "- 1 * (2 * pi * real j * real (16::nat) / real (32::nat)) = real j * (- pi)"
      by simp
    then show ?thesis
      by (simp only: DeMoivre [symmetric] cis_minus_pi)
  qed
  have "dft_sum (- 1) ?x 16 = (\<Sum>j<32. ?x ! j * (- 1) ^ j)"
    by (simp only: dft_sum_def length_fill_input tw)
  also have "\<dots> = (\<Sum>j<29 + 3. if j < 29 then (- 1) ^ j else 0)"
    by (rule sum.cong) (simp_all add: padded_nth)
  also have "\<dots> = (\<Sum>j<29. (- 1) ^ j)"
    by (rule sum_prefix)
  also have "\<dots> = 1"
    using alternating_sum_odd [of 14] by simp
  finally show ?thesis .
qed

lemma padded_bins_mod8:
  "(\<Sum>q<4. dft_sum (- 1) (fill_input (replicate 29 unit_point) 32) (8 * q)) = 32"
proof -
  let ?x = "fill_input (replicate 29 unit_point) 32"
  have "(\<Sum>q<4. dft_sum (real_of_int (- 1)) ?x (8 * q)) = of_nat 4 * (\<Sum>r<8. ?x ! (4 * r))"
    by (rule dft_decimated) (simp_all add: length_fill_input)
  also have "(\<Sum>r<8. ?x ! (4 * r)) = (\<Sum>r<(8::nat). 1)"
    by (rule sum.cong) (simp_all add: padded_nth)
  finally show ?thesis by simp
qed

text \<open>
  A padded run: the constant series of 29 points with value 1 is padded with three zeros to
  size 32, the padded signal is not constant, and the filter removes its bins 10 to 21.
  The eight seasonal estimates at the indices 0, 4, ..., 28 sum to 31/128, where eight
  estimates of 1/32 would sum to 32/128.
\<close>

lemma performHarmonicAnalysis_padded_constant:
  "(let r = performHarmonicAnalysis (replicate 29 unit_point)
    in seasonal (r ! 0) + seasonal (r ! 4) + seasonal (r ! 8) + seasonal (r ! 12)
       + seasonal (r ! 16) + seasonal (r ! 20) + seasonal (r ! 24) + seasonal (r ! 28)) = 31 / 128"
proof -
  let ?x = "fill_input (replicate 29 unit_point) 32"
  let ?F = "lowpass (transform ?x)"
  let ?z = "inverseTransform ?F"
  have lenF: "length ?F = 32"
    by (simp add: lowpass_def length_transform length_fill_input)
  have s: "seasonal (performHarmonicAnalysis (replicate 29 unit_point) ! n) = Re (?z ! n) / 32"
    if "n < 29" for n
    using that by (simp add: performHarmonicAnalysis_def Let_def nextPow2_29)
  have z: "?z ! n = dft_sum (real_of_int 1) ?F n / 32" if "n < 32" for n
    using that by (simp add: inverseTransform_nth lenF)
  have F: "?F ! k = (if 10 \<le> k \<and> k < 22 then 0 else dft_sum (- 1) ?x k)" if "k < 32" for k
    using that by (auto simp: lowpass_def cutoff_def length_transform length_fill_input transform_nth)
  have "(\<Sum>m<8. dft_sum (real_of_int 1) ?F (4 * m)) = of_nat 8 * (\<Sum>q<4. ?F ! (8 * q))"
    by (rule dft_decimated) (simp_all add: lenF)
  also have "(\<Sum>q<4. ?F ! (8 * q))
               = (\<Sum>q<4. dft_sum (- 1) ?x (8 * q)) - dft_sum (- 1) ?x 16"
    by (simp add: sum_four F)
  also have "\<dots> = 31"
    by (simp add: padded_bins_mod8 padded_bin16)
  finally have bins: "(\<Sum>m<8. dft_sum (real_of_int 1) ?F (4 * m)) = 248"
    by simp
  have "(\<Sum>m<8. ?z ! (4 * m)) = (\<Sum>m<8. dft_sum (real_of_int 1) ?F (4 * m)) / 32"
    by (simp only: sum_divide_distrib) (simp add: sum_eight z)
  then have total: "(\<Sum>m<8. ?z ! (4 * m)) = 31 / 4"
    by (simp only: bins) simp
  have "Re (\<Sum>m<8. ?z ! (4 * m)) = 31 / 4"
    by (simp only: total) simp
  then have "(\<Sum>m<8. Re (?z ! (4 * m))) = 31 / 4"
    by simp
  then show ?thesis
    by (simp add: Let_def s sum_eight)
qed

end
